theory Spec2Isabelle
  imports Main
begin

section \<open>Queue storage of the STOMP broker (queue_storage.go)\<close>

subsection \<open>Frames and references to them\<close>

text \<open>
  Modelled from the spec: the type \<^verbatim>\<open>message.Frame\<close> is imported from another package
  and is not part of the source file. The spec describes a frame as an unordered mapping
  of header names to header values (strings) together with a body; the identifier of a
  message is the header named \<^verbatim>\<open>message-id\<close>.
\<close>

record frame =
  headers :: "string \<rightharpoonup> string"
  body :: string

text \<open>
  The storage handles values of type \<^verbatim>\<open>*message.Frame\<close>: a pointer, which is either nil
  or the address of a frame object.
\<close>

datatype frame_ptr = NilFrame | FramePtr nat

text \<open>
  Go's \<^verbatim>\<open>error\<close> results. The source only ever returns the nil error (\<open>None\<close>); the
  constructors are the conditions named by the error taxonomy of the specification.
\<close>

datatype storage_error = NotStarted | InvalidDestination | StorageFailure | QueueFull

text \<open>
  A run-time panic, as opposed to an \<^verbatim>\<open>error\<close> value that is returned: Go stops
  an assignment \<^verbatim>\<open>m[k] = v\<close> on a nil map with "assignment to entry in nil map".
  Reading a nil map does not panic; it yields the zero value and \<^verbatim>\<open>ok = false\<close>.
\<close>

datatype fault = NilMapAssignment

subsection \<open>The list operations used by the storage (container/list)\<close>

text \<open>
  A \<^verbatim>\<open>*list.List\<close> holding frame pointers is the sequence of its elements from
  front to back.
\<close>

definition PushBack :: "'a list \<Rightarrow> 'a \<Rightarrow> 'a list" where
  "PushBack l v = l @ [v]"

definition PushFront :: "'a list \<Rightarrow> 'a \<Rightarrow> 'a list" where
  "PushFront l v = v # l"

subsection \<open>The storage and the objects around it\<close>

text \<open>
  \<^verbatim>\<open>type MemoryQueueStorage struct { lists map[string]*list.List }\<close>.
  The map is \<open>None\<close> when it is nil. Every list in the map is created by
  \<^verbatim>\<open>list.New()\<close> for exactly one key, so the lists are not shared between keys and
  a list can be stored by value.
\<close>

record MemoryQueueStorage =
  lists_map :: "(string \<rightharpoonup> frame_ptr list) option"

text \<open>
  The broker's frame objects live outside the storage; \<open>frames\<close> is the store of
  frame objects by address. Every operation receives the store and hands it back, so
  that a write to a frame would be visible.
\<close>

record world =
  frames :: "nat \<rightharpoonup> frame"
  storage :: MemoryQueueStorage

text \<open>\<^verbatim>\<open>new(MemoryQueueStorage)\<close>: the zero value, whose map is nil.\<close>

definition NewMemoryQueueStorage :: MemoryQueueStorage where
  "NewMemoryQueueStorage = \<lparr>lists_map = None\<rparr>"

definition Start :: "world \<Rightarrow> world" where
  "Start w = w\<lparr>storage := \<lparr>lists_map = Some Map.empty\<rparr>\<rparr>"

definition Stop :: "world \<Rightarrow> world" where
  "Stop w = w\<lparr>storage := \<lparr>lists_map = None\<rparr>\<rparr>"

text \<open>
  \<^verbatim>\<open>Enqueue\<close>: the read \<^verbatim>\<open>l, ok := m.lists[queue]\<close> gives \<^verbatim>\<open>ok = false\<close> on a
  nil map, and the assignment \<^verbatim>\<open>m.lists[queue] = l\<close> that follows panics. On a
  non-nil map a missing key gets a new empty list; then the frame pointer is pushed at
  the back of the list and the nil error is returned.
\<close>

definition Enqueue ::
  "world \<Rightarrow> string \<Rightarrow> frame_ptr \<Rightarrow> fault + (storage_error option \<times> world)" where
  "Enqueue w queue frame =
     (case lists_map (storage w) of
        None \<Rightarrow> Inl NilMapAssignment
      | Some ls \<Rightarrow>
          (let l = (case ls queue of None \<Rightarrow> [] | Some l \<Rightarrow> l)
           in Inr (None, w\<lparr>storage := \<lparr>lists_map = Some (ls(queue \<mapsto> PushBack l frame))\<rparr>\<rparr>)))"

text \<open>\<^verbatim>\<open>Requeue\<close>: as \<^verbatim>\<open>Enqueue\<close>, with \<^verbatim>\<open>PushFront\<close>.\<close>

definition Requeue ::
  "world \<Rightarrow> string \<Rightarrow> frame_ptr \<Rightarrow> fault + (storage_error option \<times> world)" where
  "Requeue w queue frame =
     (case lists_map (storage w) of
        None \<Rightarrow> Inl NilMapAssignment
      | Some ls \<Rightarrow>
          (let l = (case ls queue of None \<Rightarrow> [] | Some l \<Rightarrow> l)
           in Inr (None, w\<lparr>storage := \<lparr>lists_map = Some (ls(queue \<mapsto> PushFront l frame))\<rparr>\<rparr>)))"

text \<open>
  \<^verbatim>\<open>Dequeue\<close>: only reads the map, so a nil map behaves as a map without the key:
  \<^verbatim>\<open>return nil, nil\<close>. An empty list (\<^verbatim>\<open>l.Front() == nil\<close>) gives the same
  result. Otherwise the front element is removed from the list and its value returned
  with the nil error.
\<close>

definition Dequeue ::
  "world \<Rightarrow> string \<Rightarrow> fault + ((frame_ptr \<times> storage_error option) \<times> world)" where
  "Dequeue w queue =
     (case lists_map (storage w) of
        None \<Rightarrow> Inr ((NilFrame, None), w)
      | Some ls \<Rightarrow>
          (case ls queue of
             None \<Rightarrow> Inr ((NilFrame, None), w)
           | Some l \<Rightarrow>
               (case l of
                  [] \<Rightarrow> Inr ((NilFrame, None), w)
                | element # rest \<Rightarrow>
                    Inr ((element, None),
                         w\<lparr>storage := \<lparr>lists_map = Some (ls(queue \<mapsto> rest))\<rparr>\<rparr>))))"

subsection \<open>Observations and call sequences\<close>

text \<open>The frames waiting for a destination, front first; none when there is no list.\<close>

definition queue_of :: "world \<Rightarrow> string \<Rightarrow> frame_ptr list" where
  "queue_of w d =
     (case lists_map (storage w) of
        None \<Rightarrow> []
      | Some ls \<Rightarrow> (case ls d of None \<Rightarrow> [] | Some l \<Rightarrow> l))"

text \<open>The \<^verbatim>\<open>message-id\<close> header of the frame a pointer refers to, if there is one.\<close>

definition message_id :: "world \<Rightarrow> frame_ptr \<Rightarrow> string option" where
  "message_id w p =
     (case p of
        NilFrame \<Rightarrow> None
      | FramePtr a \<Rightarrow> (case frames w a of None \<Rightarrow> None | Some f \<Rightarrow> headers f ''message-id''))"

text \<open>
  The data operations as the broker issues them, and what each call answers: the error
  of \<^verbatim>\<open>Enqueue\<close> and \<^verbatim>\<open>Requeue\<close>, the frame and the error of \<^verbatim>\<open>Dequeue\<close>.
\<close>

datatype op = OpEnqueue string frame_ptr | OpRequeue string frame_ptr | OpDequeue string

datatype reply = Ack "storage_error option" | Delivered frame_ptr "storage_error option"

fun exec :: "world \<Rightarrow> op \<Rightarrow> fault + (reply \<times> world)" where
  "exec w (OpEnqueue d f) =
     (case Enqueue w d f of Inl p \<Rightarrow> Inl p | Inr (e, w') \<Rightarrow> Inr (Ack e, w'))"
| "exec w (OpRequeue d f) =
     (case Requeue w d f of Inl p \<Rightarrow> Inl p | Inr (e, w') \<Rightarrow> Inr (Ack e, w'))"
| "exec w (OpDequeue d) =
     (case Dequeue w d of Inl p \<Rightarrow> Inl p | Inr ((f, e), w') \<Rightarrow> Inr (Delivered f e, w'))"

text \<open>A sequence of calls, one after the other; a panic ends the sequence.\<close>

fun run :: "world \<Rightarrow> op list \<Rightarrow> fault + (reply list \<times> world)" where
  "run w [] = Inr ([], w)"
| "run w (x # xs) =
     (case exec w x of
        Inl p \<Rightarrow> Inl p
      | Inr (r, w') \<Rightarrow> (case run w' xs of Inl p \<Rightarrow> Inl p | Inr (rs, w'') \<Rightarrow> Inr (r # rs, w'')))"

text \<open>The destinations for which a call creates a list when there is none.\<close>

fun creates :: "op \<Rightarrow> string list" where
  "creates (OpEnqueue d f) = [d]"
| "creates (OpRequeue d f) = [d]"
| "creates (OpDequeue d) = []"

definition touched :: "op list \<Rightarrow> string set" where
  "touched xs = set (concat (map creates xs))"

text \<open>What a call does to the sequence of frames waiting for a destination.\<close>

fun queue_step :: "string \<Rightarrow> frame_ptr list \<Rightarrow> op \<Rightarrow> frame_ptr list" where
  "queue_step d l (OpEnqueue q f) = (if q = d then l @ [f] else l)"
| "queue_step d l (OpRequeue q f) = (if q = d then f # l else l)"
| "queue_step d l (OpDequeue q) = (if q = d then tl l else l)"

text \<open>A call that is neither a requeue nor a dequeue on the destination.\<close>

fun calm :: "string \<Rightarrow> op \<Rightarrow> bool" where
  "calm d (OpEnqueue q f) = True"
| "calm d (OpRequeue q f) = (q \<noteq> d)"
| "calm d (OpDequeue q) = (q \<noteq> d)"

text \<open>The frames that a sequence of calls enqueues for a destination, in order.\<close>

fun enqueued :: "string \<Rightarrow> op list \<Rightarrow> frame_ptr list" where
  "enqueued d [] = []"
| "enqueued d (OpEnqueue q f # xs) = (if q = d then f # enqueued d xs else enqueued d xs)"
| "enqueued d (x # xs) = enqueued d xs"

text \<open>
  What a call answers, given the frames waiting for each destination: a dequeue hands
  out the frame at the front, or nil when none is waiting; no call reports an error.
\<close>

definition head_or_nil :: "frame_ptr list \<Rightarrow> frame_ptr" where
  "head_or_nil l = (case l of [] \<Rightarrow> NilFrame | a # rest \<Rightarrow> a)"

fun answer :: "(string \<Rightarrow> frame_ptr list) \<Rightarrow> op \<Rightarrow> reply" where
  "answer qs (OpEnqueue d f) = Ack None"
| "answer qs (OpRequeue d f) = Ack None"
| "answer qs (OpDequeue d) = Delivered (head_or_nil (qs d)) None"

fun answers :: "(string \<Rightarrow> frame_ptr list) \<Rightarrow> op list \<Rightarrow> reply list" where
  "answers qs [] = []"
| "answers qs (x # xs) = answer qs x # answers (\<lambda>d. queue_step d (qs d) x) xs"

text \<open>A storage that was created and not started, next to a store of frame objects.\<close>

definition unstarted :: "(nat \<rightharpoonup> frame) \<Rightarrow> world" where
  "unstarted fs = \<lparr>frames = fs, storage = NewMemoryQueueStorage\<rparr>"

text \<open>
  Two frame objects without any header, at the addresses 0 and 1, as a broker would
  hand them to \<^verbatim>\<open>Enqueue\<close> before an identifier has been given to them.
\<close>

definition plain_frames :: "nat \<rightharpoonup> frame" where
  "plain_frames = [0 \<mapsto> \<lparr>headers = Map.empty, body = ''a''\<rparr>,
                   1 \<mapsto> \<lparr>headers = Map.empty, body = ''b''\<rparr>]"

text \<open>A frame object that already carries an identifier, at the address 0.\<close>

definition tagged_frames :: "nat \<rightharpoonup> frame" where
  "tagged_frames = [0 \<mapsto> \<lparr>headers = [''message-id'' \<mapsto> ''id1''], body = ''a''\<rparr>]"

text \<open>A started storage with a list for one destination only.\<close>

definition waiting :: "(nat \<rightharpoonup> frame) \<Rightarrow> string \<Rightarrow> frame_ptr list \<Rightarrow> world" where
  "waiting fs d l = \<lparr>frames = fs, storage = \<lparr>lists_map = Some [d \<mapsto> l]\<rparr>\<rparr>"

section \<open>Basic facts\<close>

lemma started_Start: "lists_map (storage (Start w)) = Some Map.empty"
  by (simp add: Start_def)

lemma frames_Start: "frames (Start w) = frames w"
  by (simp add: Start_def)

lemma stopped_Stop: "lists_map (storage (Stop w)) = None"
  by (simp add: Stop_def)

lemma queue_of_Start: "queue_of (Start w) d = []"
  by (simp add: queue_of_def Start_def)

lemma Enqueue_started:
  assumes "lists_map (storage w) = Some ls"
  shows "\<exists>w'. Enqueue w d f = Inr (None, w') \<and> frames w' = frames w
           \<and> lists_map (storage w') = Some (ls(d \<mapsto> queue_of w d @ [f]))"
  using assms by (simp add: Enqueue_def queue_of_def PushBack_def Let_def)

lemma Requeue_started:
  assumes "lists_map (storage w) = Some ls"
  shows "\<exists>w'. Requeue w d f = Inr (None, w') \<and> frames w' = frames w
           \<and> lists_map (storage w') = Some (ls(d \<mapsto> f # queue_of w d))"
  using assms by (simp add: Requeue_def queue_of_def PushFront_def Let_def)

lemma Dequeue_empty:
  assumes "queue_of w d = []"
  shows "Dequeue w d = Inr ((NilFrame, None), w)"
  using assms by (simp add: Dequeue_def queue_of_def split: option.splits list.splits)

lemma Dequeue_nonempty:
  assumes "lists_map (storage w) = Some ls" and "queue_of w d = x # rest"
  shows "\<exists>w'. Dequeue w d = Inr ((x, None), w') \<and> frames w' = frames w
           \<and> lists_map (storage w') = Some (ls(d \<mapsto> rest))"
  using assms by (auto simp add: Dequeue_def queue_of_def split: option.splits list.splits)

lemma queue_of_upd:
  assumes "lists_map (storage w') = Some (ls(d \<mapsto> l))" and "lists_map (storage w) = Some ls"
  shows "queue_of w' q = (if q = d then l else queue_of w q)"
  using assms by (simp add: queue_of_def)

text \<open>
  On a started storage every call returns; it leaves the frame objects alone, adds at
  most the list of its own destination to the map, and answers and moves the waiting
  frames as the sequence model says.
\<close>

lemma exec_started:
  assumes "lists_map (storage w) = Some ls"
  shows "\<exists>w' ls'. exec w x = Inr (answer (queue_of w) x, w') \<and> frames w' = frames w
           \<and> lists_map (storage w') = Some ls' \<and> dom ls' = dom ls \<union> set (creates x)
           \<and> (\<forall>d. queue_of w' d = queue_step d (queue_of w d) x)"
proof (cases x)
  case (OpEnqueue q f)
  from Enqueue_started [OF assms, of q f] obtain w' where
    e: "Enqueue w q f = Inr (None, w')" and fr: "frames w' = frames w"
    and l: "lists_map (storage w') = Some (ls(q \<mapsto> queue_of w q @ [f]))" by blast
  have "\<forall>d. queue_of w' d = queue_step d (queue_of w d) x"
    using queue_of_upd [OF l assms] OpEnqueue by simp
  with e fr l OpEnqueue show ?thesis by simp
next
  case (OpRequeue q f)
  from Requeue_started [OF assms, of q f] obtain w' where
    e: "Requeue w q f = Inr (None, w')" and fr: "frames w' = frames w"
    and l: "lists_map (storage w') = Some (ls(q \<mapsto> f # queue_of w q))" by blast
  have "\<forall>d. queue_of w' d = queue_step d (queue_of w d) x"
    using queue_of_upd [OF l assms] OpRequeue by simp
  with e fr l OpRequeue show ?thesis by simp
next
  case (OpDequeue q)
  show ?thesis
  proof (cases "queue_of w q")
    case Nil
    from Dequeue_empty [OF Nil] have e: "Dequeue w q = Inr ((NilFrame, None), w)" .
    have "\<forall>d. queue_of w d = queue_step d (queue_of w d) x"
      using Nil OpDequeue by simp
    with e assms Nil OpDequeue show ?thesis by (simp add: head_or_nil_def)
  next
    case (Cons a rest)
    from Dequeue_nonempty [OF assms Cons] obtain w' where
      e: "Dequeue w q = Inr ((a, None), w')" and fr: "frames w' = frames w"
      and l: "lists_map (storage w') = Some (ls(q \<mapsto> rest))" by blast
    have q: "\<forall>d. queue_of w' d = queue_step d (queue_of w d) x"
      using queue_of_upd [OF l assms] OpDequeue Cons by simp
    have "q \<in> dom ls"
      using assms Cons by (auto simp: queue_of_def split: option.splits)
    then have "dom (ls(q \<mapsto> rest)) = dom ls \<union> set (creates x)"
      using OpDequeue by auto
    with e fr l q Cons OpDequeue show ?thesis by (simp add: head_or_nil_def)
  qed
qed

lemma run_started:
  assumes "lists_map (storage w) = Some ls"
  shows "\<exists>w' ls'. run w xs = Inr (answers (queue_of w) xs, w') \<and> frames w' = frames w
           \<and> lists_map (storage w') = Some ls' \<and> dom ls' = dom ls \<union> touched xs
           \<and> (\<forall>d. queue_of w' d = foldl (queue_step d) (queue_of w d) xs)"
  using assms
proof (induction xs arbitrary: w ls)
  case Nil
  then show ?case by (simp add: touched_def)
next
  case (Cons x xs)
  from exec_started [OF Cons.prems, of x] obtain w1 ls1 where
    e: "exec w x = Inr (answer (queue_of w) x, w1)" and fr: "frames w1 = frames w"
    and l: "lists_map (storage w1) = Some ls1" and d: "dom ls1 = dom ls \<union> set (creates x)"
    and q: "\<forall>d. queue_of w1 d = queue_step d (queue_of w d) x" by blast
  from Cons.IH [OF l] obtain w2 ls2 where
    r: "run w1 xs = Inr (answers (queue_of w1) xs, w2)" and fr2: "frames w2 = frames w1"
    and l2: "lists_map (storage w2) = Some ls2" and d2: "dom ls2 = dom ls1 \<union> touched xs"
    and q2: "\<forall>d. queue_of w2 d = foldl (queue_step d) (queue_of w1 d) xs" by blast
  have "dom ls2 = dom ls \<union> touched (x # xs)"
    using d d2 by (auto simp: touched_def)
  moreover have "queue_of w1 = (\<lambda>d. queue_step d (queue_of w d) x)"
    using q by auto
  ultimately show ?case using e r fr fr2 l2 q q2 by simp
qed

text \<open>Calls that neither requeue to nor dequeue from a destination only append to it.\<close>

lemma calm_fold:
  "list_all (calm d) xs \<Longrightarrow> foldl (queue_step d) l xs = l @ enqueued d xs"
proof (induction xs arbitrary: l)
  case Nil
  then show ?case by simp
next
  case (Cons x xs)
  then show ?case by (cases x) auto
qed

text \<open>As many dequeues as frames are waiting hand the frames out front first.\<close>

lemma drain:
  assumes "lists_map (storage w) = Some ls"
  shows "\<exists>w'. run w (replicate (length (queue_of w d)) (OpDequeue d))
               = Inr (map (\<lambda>f. Delivered f None) (queue_of w d), w')
            \<and> frames w' = frames w \<and> queue_of w' d = [] \<and> lists_map (storage w') \<noteq> None"
  using assms
proof (induction "queue_of w d" arbitrary: w ls)
  case Nil
  then show ?case by simp
next
  case (Cons a rest)
  from Cons.hyps(2) have c: "queue_of w d = a # rest" by simp
  from Dequeue_nonempty [OF Cons.prems c] obtain w1 where
    e: "Dequeue w d = Inr ((a, None), w1)" and fr: "frames w1 = frames w"
    and l: "lists_map (storage w1) = Some (ls(d \<mapsto> rest))" by blast
  have q: "rest = queue_of w1 d" using l by (simp add: queue_of_def)
  from Cons.hyps(1) [OF q l] obtain w2 where
    "run w1 (replicate (length (queue_of w1 d)) (OpDequeue d))
       = Inr (map (\<lambda>f. Delivered f None) (queue_of w1 d), w2)"
    and "frames w2 = frames w1" and "queue_of w2 d = []"
    and "lists_map (storage w2) \<noteq> None" by blast
  with e fr c q show ?case by simp
qed

text \<open>
  A requeue on a started storage returns, and the dequeue that follows hands out the
  requeued pointer; neither touches the frame objects.
\<close>

lemma Requeue_then_Dequeue:
  assumes "lists_map (storage w) = Some ls"
  shows "\<exists>w1 w2. Requeue w d f = Inr (None, w1) \<and> frames w1 = frames w
           \<and> Dequeue w1 d = Inr ((f, None), w2) \<and> frames w2 = frames w"
proof -
  from Requeue_started [OF assms, of d f] obtain w1 where
    r: "Requeue w d f = Inr (None, w1)" and f1: "frames w1 = frames w"
    and l1: "lists_map (storage w1) = Some (ls(d \<mapsto> f # queue_of w d))" by blast
  have q1: "queue_of w1 d = f # queue_of w d"
    using l1 by (simp add: queue_of_def)
  from Dequeue_nonempty [OF l1 q1] obtain w2 where
    "Dequeue w1 d = Inr ((f, None), w2)" and "frames w2 = frames w1" by blast
  with r f1 show ?thesis by simp
qed

text \<open>A dequeue on a started storage hands out the pointer at the front, or nil.\<close>

lemma Dequeue_head:
  assumes "lists_map (storage w) = Some ls"
  shows "\<exists>w' ls'. Dequeue w d = Inr ((head_or_nil (queue_of w d), None), w')
           \<and> lists_map (storage w') = Some ls' \<and> frames w' = frames w"
proof -
  from exec_started [OF assms, of "OpDequeue d"] obtain w' ls' where
    e: "exec w (OpDequeue d) = Inr (answer (queue_of w) (OpDequeue d), w')"
    and "frames w' = frames w" and "lists_map (storage w') = Some ls'" by blast
  moreover from e have "Dequeue w d = Inr ((head_or_nil (queue_of w d), None), w')"
    by (auto split: sum.splits)
  ultimately show ?thesis by blast
qed

lemma message_id_frames: "frames w' = frames w \<Longrightarrow> message_id w' p = message_id w p"
  by (cases p) (simp_all add: message_id_def)

section \<open>The claims\<close>

subsection \<open>Lifecycle\<close>

text \<open>
  C1, as stated, fails. On a storage that was created and never started,
  \<^verbatim>\<open>Enqueue\<close> and \<^verbatim>\<open>Requeue\<close> do not return a \<open>NotStarted\<close> error: the assignment
  to the nil map panics. \<^verbatim>\<open>Dequeue\<close> does not return an error either: it answers the
  nil frame with the nil error, as for an empty queue.
\<close>

theorem lifecycle_guard_counterexample:
  "Enqueue (unstarted Map.empty) ''orders'' (FramePtr 0) = Inl NilMapAssignment
   \<and> Requeue (unstarted Map.empty) ''orders'' (FramePtr 0) = Inl NilMapAssignment
   \<and> Dequeue (unstarted Map.empty) ''orders'' = Inr ((NilFrame, None), unstarted Map.empty)"
  by (simp add: Enqueue_def Requeue_def Dequeue_def unstarted_def NewMemoryQueueStorage_def)

text \<open>
  C1, amended: on a storage whose map is nil (before \<^verbatim>\<open>Start()\<close> or after
  \<^verbatim>\<open>Stop()\<close>), for every destination and frame, no data operation returns a
  \<open>NotStarted\<close> error: \<^verbatim>\<open>Dequeue\<close> returns the nil frame and the nil error and
  changes nothing, and \<^verbatim>\<open>Enqueue\<close> and \<^verbatim>\<open>Requeue\<close> do not return, they stop with
  the panic of an assignment to a nil map.
\<close>

theorem unstarted_operations:
  assumes "lists_map (storage w) = None"
  shows "Enqueue w d f = Inl NilMapAssignment \<and> Requeue w d f = Inl NilMapAssignment
         \<and> Dequeue w d = Inr ((NilFrame, None), w)"
  using assms by (simp add: Enqueue_def Requeue_def Dequeue_def)

theorem unstarted_operations_witness:
  "lists_map (storage (Stop (Start (unstarted Map.empty)))) = None
   \<and> Enqueue (Stop (Start (unstarted Map.empty))) ''orders'' (FramePtr 0) = Inl NilMapAssignment
   \<and> Requeue (Stop (Start (unstarted Map.empty))) ''orders'' (FramePtr 0) = Inl NilMapAssignment
   \<and> Dequeue (Stop (Start (unstarted Map.empty))) ''orders''
       = Inr ((NilFrame, None), Stop (Start (unstarted Map.empty)))"
proof -
  have h: "lists_map (storage (Stop (Start (unstarted Map.empty)))) = None"
    by (simp add: Stop_def)
  from unstarted_operations [OF h, of "''orders''" "FramePtr 0"] h show ?thesis by blast
qed

subsection \<open>Identifiers\<close>

text \<open>
  C2 does not hold of the code. The interface comment says that \<^verbatim>\<open>Enqueue\<close> sets the
  \<^verbatim>\<open>message-id\<close> header of the frame before adding it to the queue, but the function
  never writes to the frame. Two frames without an identifier are enqueued on a started
  storage and dequeued again: every call succeeds, the frames come back in order, and
  neither of them has a \<^verbatim>\<open>message-id\<close> afterwards.
\<close>

theorem Enqueue_sets_no_message_id:
  "map_sum id (\<lambda>(rs, w). (rs, message_id w (FramePtr 0), message_id w (FramePtr 1)))
     (run (Start (unstarted plain_frames))
        [OpEnqueue ''orders'' (FramePtr 0), OpEnqueue ''orders'' (FramePtr 1),
         OpDequeue ''orders'', OpDequeue ''orders''])
   = Inr ([Ack None, Ack None, Delivered (FramePtr 0) None, Delivered (FramePtr 1) None],
          None, None)"
  by (simp add: Start_def unstarted_def Enqueue_def Dequeue_def PushBack_def message_id_def
      plain_frames_def)

text \<open>
  C5: on a started storage, for every destination (with or without a list) and every
  frame, \<^verbatim>\<open>Requeue\<close> returns without error and leaves every frame object as it is, so
  the \<^verbatim>\<open>message-id\<close> of the frame is the one it had before: no new identifier is
  given to a frame that has one. The dequeue that follows hands out the same frame with
  the same \<^verbatim>\<open>message-id\<close>. In particular, when a dequeue hands out a frame and that
  frame is requeued and dequeued again, its \<^verbatim>\<open>message-id\<close> after the requeue and
  after the second dequeue is the one it had at the first dequeue.
\<close>

theorem requeue_keeps_message_id:
  assumes "lists_map (storage w) = Some ls"
  shows "(\<exists>w1 w2. Requeue w d f = Inr (None, w1) \<and> frames w1 = frames w
            \<and> message_id w1 f = message_id w f
            \<and> Dequeue w1 d = Inr ((f, None), w2) \<and> frames w2 = frames w
            \<and> message_id w2 f = message_id w f)
       \<and> (\<exists>w0 w1 w2. Dequeue w d = Inr ((head_or_nil (queue_of w d), None), w0)
            \<and> Requeue w0 d (head_or_nil (queue_of w d)) = Inr (None, w1)
            \<and> message_id w1 (head_or_nil (queue_of w d))
                = message_id w0 (head_or_nil (queue_of w d))
            \<and> Dequeue w1 d = Inr ((head_or_nil (queue_of w d), None), w2)
            \<and> message_id w2 (head_or_nil (queue_of w d))
                = message_id w0 (head_or_nil (queue_of w d)))"
proof -
  have a: "\<exists>w1 w2. Requeue w d f = Inr (None, w1) \<and> frames w1 = frames w
            \<and> message_id w1 f = message_id w f
            \<and> Dequeue w1 d = Inr ((f, None), w2) \<and> frames w2 = frames w
            \<and> message_id w2 f = message_id w f"
  proof -
    from Requeue_then_Dequeue [OF assms, of d f] obtain w1 w2 where
      r: "Requeue w d f = Inr (None, w1)" and f1: "frames w1 = frames w"
      and d2: "Dequeue w1 d = Inr ((f, None), w2)" and f2: "frames w2 = frames w" by blast
    from r f1 d2 f2 message_id_frames [OF f1, of f] message_id_frames [OF f2, of f]
    show ?thesis by blast
  qed
  let ?p = "head_or_nil (queue_of w d)"
  have b: "\<exists>w0 w1 w2. Dequeue w d = Inr ((?p, None), w0)
            \<and> Requeue w0 d ?p = Inr (None, w1) \<and> message_id w1 ?p = message_id w0 ?p
            \<and> Dequeue w1 d = Inr ((?p, None), w2) \<and> message_id w2 ?p = message_id w0 ?p"
  proof -
    from Dequeue_head [OF assms, of d] obtain w0 ls0 where
      d0: "Dequeue w d = Inr ((?p, None), w0)" and l0: "lists_map (storage w0) = Some ls0"
      by blast
    from Requeue_then_Dequeue [OF l0, of d ?p] obtain w1 w2 where
      r: "Requeue w0 d ?p = Inr (None, w1)" and f1: "frames w1 = frames w0"
      and d2: "Dequeue w1 d = Inr ((?p, None), w2)" and f2: "frames w2 = frames w0" by blast
    from d0 r d2 message_id_frames [OF f1, of ?p] message_id_frames [OF f2, of ?p]
    show ?thesis by blast
  qed
  from a b show ?thesis by blast
qed

theorem requeue_keeps_message_id_witness:
  "(lists_map (storage (Start (unstarted tagged_frames))) = Some Map.empty
    \<and> message_id (Start (unstarted tagged_frames)) (FramePtr 0) = Some ''id1''
    \<and> (\<exists>w1 w2. Requeue (Start (unstarted tagged_frames)) ''orders'' (FramePtr 0) = Inr (None, w1)
          \<and> frames w1 = tagged_frames \<and> message_id w1 (FramePtr 0) = Some ''id1''
          \<and> Dequeue w1 ''orders'' = Inr ((FramePtr 0, None), w2)
          \<and> frames w2 = tagged_frames \<and> message_id w2 (FramePtr 0) = Some ''id1''))
   \<and> (lists_map (storage (waiting tagged_frames ''orders'' [FramePtr 0]))
         = Some [''orders'' \<mapsto> [FramePtr 0]]
    \<and> (\<exists>w0 w1 w2. Dequeue (waiting tagged_frames ''orders'' [FramePtr 0]) ''orders''
             = Inr ((FramePtr 0, None), w0)
          \<and> message_id w0 (FramePtr 0) = Some ''id1''
          \<and> Requeue w0 ''orders'' (FramePtr 0) = Inr (None, w1)
          \<and> message_id w1 (FramePtr 0) = Some ''id1''
          \<and> Dequeue w1 ''orders'' = Inr ((FramePtr 0, None), w2)
          \<and> message_id w2 (FramePtr 0) = Some ''id1''))"
proof -
  let ?s = "Start (unstarted tagged_frames)"
  let ?v = "waiting tagged_frames ''orders'' [FramePtr 0]"
  have h1: "lists_map (storage ?s) = Some Map.empty"
    by (simp add: Start_def)
  have f1: "frames ?s = tagged_frames"
    by (simp add: Start_def unstarted_def)
  have m1: "message_id ?s (FramePtr 0) = Some ''id1''"
    by (simp add: message_id_def f1) (simp add: tagged_frames_def)
  have h2: "lists_map (storage ?v) = Some [''orders'' \<mapsto> [FramePtr 0]]"
    by (simp add: waiting_def)
  have p2: "head_or_nil (queue_of ?v ''orders'') = FramePtr 0"
    by (simp add: head_or_nil_def queue_of_def waiting_def)
  have d2: "Dequeue ?v ''orders'' = Inr ((FramePtr 0, None), waiting tagged_frames ''orders'' [])"
    by (simp add: waiting_def Dequeue_def)
  have m2: "message_id (waiting tagged_frames ''orders'' []) (FramePtr 0) = Some ''id1''"
    by (simp add: message_id_def waiting_def tagged_frames_def)
  from requeue_keeps_message_id [OF h1, of "''orders''" "FramePtr 0"]
  have a: "\<exists>w1 w2. Requeue ?s ''orders'' (FramePtr 0) = Inr (None, w1)
          \<and> frames w1 = tagged_frames \<and> message_id w1 (FramePtr 0) = Some ''id1''
          \<and> Dequeue w1 ''orders'' = Inr ((FramePtr 0, None), w2)
          \<and> frames w2 = tagged_frames \<and> message_id w2 (FramePtr 0) = Some ''id1''"
    unfolding f1 m1 by blast
  from requeue_keeps_message_id [OF h2, of "''orders''" NilFrame]
  have b: "\<exists>w0 w1 w2. Dequeue ?v ''orders'' = Inr ((FramePtr 0, None), w0)
          \<and> message_id w0 (FramePtr 0) = Some ''id1''
          \<and> Requeue w0 ''orders'' (FramePtr 0) = Inr (None, w1)
          \<and> message_id w1 (FramePtr 0) = Some ''id1''
          \<and> Dequeue w1 ''orders'' = Inr ((FramePtr 0, None), w2)
          \<and> message_id w2 (FramePtr 0) = Some ''id1''"
    unfolding p2 d2 using m2 by auto
  from h1 m1 a h2 b show ?thesis by blast
qed

subsection \<open>Order of delivery\<close>

text \<open>
  C3: on a started storage, let frame \<open>A\<close> be enqueued for a destination, then any calls
  that neither requeue to nor dequeue from that destination, then frame \<open>B\<close> be enqueued
  for it. All these calls return, and the dequeues on the destination that follow hand
  out the frames that were waiting before, then \<open>A\<close>, then the frames enqueued in
  between, then \<open>B\<close>: \<open>A\<close> comes strictly before \<open>B\<close>.
\<close>

theorem fifo_order:
  assumes "lists_map (storage w) = Some ls" and "list_all (calm d) mid"
  shows "\<exists>rs w1 w2. run w (OpEnqueue d A # mid @ [OpEnqueue d B]) = Inr (rs, w1)
           \<and> run w1 (replicate (length (queue_of w d) + length (enqueued d mid) + 2) (OpDequeue d))
               = Inr (map (\<lambda>f. Delivered f None) (queue_of w d @ A # enqueued d mid @ [B]), w2)"
proof -
  from run_started [OF assms(1), of "OpEnqueue d A # mid @ [OpEnqueue d B]"]
  obtain w1 ls1 where
    r: "run w (OpEnqueue d A # mid @ [OpEnqueue d B])
          = Inr (answers (queue_of w) (OpEnqueue d A # mid @ [OpEnqueue d B]), w1)"
    and l: "lists_map (storage w1) = Some ls1"
    and q: "\<forall>q. queue_of w1 q
              = foldl (queue_step q) (queue_of w q) (OpEnqueue d A # mid @ [OpEnqueue d B])"
    by blast
  have q1: "queue_of w1 d = queue_of w d @ A # enqueued d mid @ [B]"
    using q calm_fold [OF assms(2), of "queue_of w d @ [A]"] by simp
  from drain [OF l, of d] obtain w2 where
    "run w1 (replicate (length (queue_of w1 d)) (OpDequeue d))
       = Inr (map (\<lambda>f. Delivered f None) (queue_of w1 d), w2)" by blast
  with q1 have "run w1 (replicate (length (queue_of w d) + length (enqueued d mid) + 2) (OpDequeue d))
       = Inr (map (\<lambda>f. Delivered f None) (queue_of w d @ A # enqueued d mid @ [B]), w2)"
    by simp
  with r show ?thesis by blast
qed

theorem fifo_order_witness:
  "lists_map (storage (Start (unstarted Map.empty))) = Some Map.empty
   \<and> list_all (calm ''orders'') [OpEnqueue ''orders'' (FramePtr 3), OpDequeue ''other'']
   \<and> (\<exists>rs w1 w2.
        run (Start (unstarted Map.empty))
          (OpEnqueue ''orders'' (FramePtr 1)
             # [OpEnqueue ''orders'' (FramePtr 3), OpDequeue ''other'']
             @ [OpEnqueue ''orders'' (FramePtr 2)]) = Inr (rs, w1)
        \<and> run w1 (replicate 3 (OpDequeue ''orders''))
            = Inr ([Delivered (FramePtr 1) None, Delivered (FramePtr 3) None,
                    Delivered (FramePtr 2) None], w2))"
proof -
  have h1: "lists_map (storage (Start (unstarted Map.empty))) = Some Map.empty"
    by (simp add: Start_def)
  have h2: "list_all (calm ''orders'') [OpEnqueue ''orders'' (FramePtr 3), OpDequeue ''other'']"
    by simp
  have n: "length (queue_of (Start (unstarted Map.empty)) ''orders'')
           + length (enqueued ''orders'' [OpEnqueue ''orders'' (FramePtr 3), OpDequeue ''other''])
           + 2 = 3"
    by (simp add: queue_of_Start)
  from fifo_order [OF h1 h2, of "FramePtr 1" "FramePtr 2"]
  show ?thesis unfolding n using h1 h2 by (simp add: queue_of_Start del: run.simps)
qed

text \<open>
  C4: on a started storage the calls \<^verbatim>\<open>Enqueue(d, A)\<close>, \<^verbatim>\<open>Enqueue(d, B)\<close>,
  \<^verbatim>\<open>Dequeue(d)\<close>, \<^verbatim>\<open>Requeue(d, A)\<close>, \<^verbatim>\<open>Dequeue(d)\<close> all return without error; the
  first dequeue hands out the frame at the front (which is \<open>A\<close> when nothing was waiting
  before), the dequeue after the requeue hands out \<open>A\<close>, and \<open>B\<close> is then still waiting,
  at the back of the queue: the requeued frame is delivered again before \<open>B\<close>.
\<close>

theorem requeue_priority:
  assumes "lists_map (storage w) = Some ls"
  shows "\<exists>w'. run w [OpEnqueue d A, OpEnqueue d B, OpDequeue d, OpRequeue d A, OpDequeue d]
               = Inr ([Ack None, Ack None, Delivered (hd (queue_of w d @ [A, B])) None,
                       Ack None, Delivered A None], w')
            \<and> queue_of w' d = tl (queue_of w d @ [A, B])
            \<and> last (queue_of w' d) = B"
proof -
  let ?xs = "[OpEnqueue d A, OpEnqueue d B, OpDequeue d, OpRequeue d A, OpDequeue d]"
  from run_started [OF assms, of ?xs] obtain w' where
    r: "run w ?xs = Inr (answers (queue_of w) ?xs, w')"
    and q: "\<forall>q. queue_of w' q = foldl (queue_step q) (queue_of w q) ?xs" by blast
  have a: "answers (queue_of w) ?xs
             = [Ack None, Ack None, Delivered (hd (queue_of w d @ [A, B])) None,
                Ack None, Delivered A None]"
    by (cases "queue_of w d") (simp_all add: head_or_nil_def)
  have q': "queue_of w' d = tl (queue_of w d @ [A, B])"
    using q by simp
  have "last (tl (queue_of w d @ [A, B])) = B"
    by (cases "queue_of w d") simp_all
  with r a q' show ?thesis by simp
qed

theorem requeue_priority_witness:
  "lists_map (storage (Start (unstarted Map.empty))) = Some Map.empty
   \<and> (\<exists>w'. run (Start (unstarted Map.empty))
              [OpEnqueue ''orders'' (FramePtr 1), OpEnqueue ''orders'' (FramePtr 2),
               OpDequeue ''orders'', OpRequeue ''orders'' (FramePtr 1), OpDequeue ''orders'']
            = Inr ([Ack None, Ack None, Delivered (FramePtr 1) None, Ack None,
                    Delivered (FramePtr 1) None], w')
          \<and> queue_of w' ''orders'' = [FramePtr 2])"
proof -
  have h: "lists_map (storage (Start (unstarted Map.empty))) = Some Map.empty"
    by (simp add: Start_def)
  from requeue_priority [OF h, of "''orders''" "FramePtr 1" "FramePtr 2"]
  show ?thesis using h by (auto simp add: queue_of_Start simp del: run.simps)
qed

subsection \<open>Errors\<close>

text \<open>
  C6: after \<^verbatim>\<open>Start()\<close> and any sequence of data operations, \<^verbatim>\<open>Dequeue\<close> on a
  destination that no \<^verbatim>\<open>Enqueue\<close> or \<^verbatim>\<open>Requeue\<close> of the sequence named returns the
  nil frame and the nil error, and so does \<^verbatim>\<open>Dequeue\<close> on any destination once as
  many dequeues as it had frames waiting have drained it. Neither call changes the
  storage.
\<close>

theorem dequeue_empty_no_error:
  assumes "d \<notin> touched xs"
  shows "\<exists>rs w1 rs' w2. run (Start w0) xs = Inr (rs, w1)
           \<and> Dequeue w1 d = Inr ((NilFrame, None), w1)
           \<and> run w1 (replicate (length (queue_of w1 q)) (OpDequeue q)) = Inr (rs', w2)
           \<and> Dequeue w2 q = Inr ((NilFrame, None), w2)"
proof -
  from run_started [OF started_Start, of w0 xs] obtain w1 ls1 where
    r: "run (Start w0) xs = Inr (answers (queue_of (Start w0)) xs, w1)"
    and l: "lists_map (storage w1) = Some ls1" and dm: "dom ls1 = dom Map.empty \<union> touched xs"
    by blast
  from dm assms have "ls1 d = None" by auto
  with l have "queue_of w1 d = []" by (simp add: queue_of_def)
  from Dequeue_empty [OF this] have e1: "Dequeue w1 d = Inr ((NilFrame, None), w1)" .
  from drain [OF l, of q] obtain w2 where
    r2: "run w1 (replicate (length (queue_of w1 q)) (OpDequeue q))
           = Inr (map (\<lambda>f. Delivered f None) (queue_of w1 q), w2)"
    and "queue_of w2 q = []" by blast
  from Dequeue_empty [OF this(2)] have "Dequeue w2 q = Inr ((NilFrame, None), w2)" .
  with r e1 r2 show ?thesis by blast
qed

theorem dequeue_empty_no_error_witness:
  "''other'' \<notin> touched [OpEnqueue ''orders'' (FramePtr 1), OpDequeue ''other'']
   \<and> (\<exists>rs w1 rs' w2.
         run (Start (unstarted Map.empty)) [OpEnqueue ''orders'' (FramePtr 1), OpDequeue ''other'']
           = Inr (rs, w1)
         \<and> Dequeue w1 ''other'' = Inr ((NilFrame, None), w1)
         \<and> run w1 (replicate (length (queue_of w1 ''orders'')) (OpDequeue ''orders'')) = Inr (rs', w2)
         \<and> Dequeue w2 ''orders'' = Inr ((NilFrame, None), w2))"
proof -
  have h: "''other'' \<notin> touched [OpEnqueue ''orders'' (FramePtr 1), OpDequeue ''other'']"
    by (simp add: touched_def)
  from dequeue_empty_no_error [OF h, of "unstarted Map.empty" "''orders''"] h
  show ?thesis by blast
qed

text \<open>
  C10: on a started storage \<^verbatim>\<open>Enqueue\<close> and \<^verbatim>\<open>Requeue\<close> return the nil error for
  every destination name, the empty string included, and every frame pointer, nil
  included: nothing is validated and nothing is rejected.
\<close>

theorem push_never_rejected:
  assumes "lists_map (storage w) = Some ls"
  shows "(\<exists>w'. Enqueue w d f = Inr (None, w')) \<and> (\<exists>w'. Requeue w d f = Inr (None, w'))"
  using Enqueue_started [OF assms, of d f] Requeue_started [OF assms, of d f] by blast

theorem push_never_rejected_witness:
  "lists_map (storage (Start (unstarted Map.empty))) = Some Map.empty
   \<and> (\<exists>w'. Enqueue (Start (unstarted Map.empty)) [] NilFrame = Inr (None, w'))
   \<and> (\<exists>w'. Requeue (Start (unstarted Map.empty)) [] NilFrame = Inr (None, w'))"
proof -
  have h: "lists_map (storage (Start (unstarted Map.empty))) = Some Map.empty"
    by (simp add: Start_def)
  from push_never_rejected [OF h, of "[]" NilFrame] h show ?thesis by blast
qed

subsection \<open>Queue entries and their contents\<close>

text \<open>
  C7: after \<^verbatim>\<open>Start()\<close> and any sequence of data operations the storage is started
  and the keys of its map are exactly the destinations that an \<^verbatim>\<open>Enqueue\<close> or a
  \<^verbatim>\<open>Requeue\<close> of the sequence named. One more call adds its own destination when it
  is an \<^verbatim>\<open>Enqueue\<close> or a \<^verbatim>\<open>Requeue\<close>, adds nothing when it is a \<^verbatim>\<open>Dequeue\<close>, and
  removes no key.
\<close>

theorem queue_entries:
  "\<exists>rs w1 ls1. run (Start w0) xs = Inr (rs, w1) \<and> lists_map (storage w1) = Some ls1
      \<and> dom ls1 = touched xs
      \<and> (\<exists>r w2 ls2. exec w1 x = Inr (r, w2) \<and> lists_map (storage w2) = Some ls2
            \<and> dom ls2 = dom ls1 \<union> set (creates x))"
proof -
  from run_started [OF started_Start, of w0 xs] obtain w1 ls1 where
    r: "run (Start w0) xs = Inr (answers (queue_of (Start w0)) xs, w1)"
    and l: "lists_map (storage w1) = Some ls1" and dm: "dom ls1 = dom Map.empty \<union> touched xs"
    by blast
  from exec_started [OF l, of x] obtain w2 ls2 where
    "exec w1 x = Inr (answer (queue_of w1) x, w2)" and "lists_map (storage w2) = Some ls2"
    and "dom ls2 = dom ls1 \<union> set (creates x)" by blast
  with r l dm show ?thesis by simp
qed

theorem queue_entries_witness:
  "\<exists>rs w1 ls1.
      run (Start (unstarted Map.empty))
        [OpEnqueue ''a'' (FramePtr 1), OpDequeue ''b'', OpRequeue ''c'' (FramePtr 2), OpDequeue ''a'']
        = Inr (rs, w1)
      \<and> lists_map (storage w1) = Some ls1 \<and> dom ls1 = {''a'', ''c''}
      \<and> (\<exists>r w2 ls2. exec w1 (OpDequeue ''d'') = Inr (r, w2) \<and> lists_map (storage w2) = Some ls2
            \<and> dom ls2 = dom ls1)"
  using queue_entries [of "unstarted Map.empty"
      "[OpEnqueue ''a'' (FramePtr 1), OpDequeue ''b'', OpRequeue ''c'' (FramePtr 2), OpDequeue ''a'']"
      "OpDequeue ''d''"]
  by (simp add: touched_def del: run.simps exec.simps)

text \<open>
  C8: after \<^verbatim>\<open>Start()\<close>, any sequence of data operations, \<^verbatim>\<open>Stop()\<close> and
  \<^verbatim>\<open>Start()\<close> again, \<^verbatim>\<open>Dequeue\<close> on every destination returns the nil frame and the
  nil error: no frame from before the \<^verbatim>\<open>Stop()\<close> is left.
\<close>

theorem stop_discards_everything:
  "\<exists>rs w1. run (Start w0) xs = Inr (rs, w1) \<and> lists_map (storage (Stop w1)) = None
      \<and> Dequeue (Start (Stop w1)) d = Inr ((NilFrame, None), Start (Stop w1))"
proof -
  from run_started [OF started_Start, of w0 xs] obtain w1 where
    r: "run (Start w0) xs = Inr (answers (queue_of (Start w0)) xs, w1)" by blast
  from Dequeue_empty [OF queue_of_Start, of "Stop w1" d] r stopped_Stop [of w1]
  show ?thesis by blast
qed

theorem stop_discards_everything_witness:
  "\<exists>rs w1. run (Start (unstarted Map.empty))
              [OpEnqueue ''orders'' (FramePtr 1), OpEnqueue ''orders'' (FramePtr 2)] = Inr (rs, w1)
      \<and> lists_map (storage (Stop w1)) = None
      \<and> Dequeue (Start (Stop w1)) ''orders'' = Inr ((NilFrame, None), Start (Stop w1))"
  using stop_discards_everything [of "unstarted Map.empty"
      "[OpEnqueue ''orders'' (FramePtr 1), OpEnqueue ''orders'' (FramePtr 2)]" "''orders''"]
  by blast

subsection \<open>Effects on frames\<close>

text \<open>
  C9: on a started storage no operation writes to a frame object. \<^verbatim>\<open>Enqueue\<close> and
  \<^verbatim>\<open>Requeue\<close> leave the store of frame objects as it is and put the very pointer they
  were given at the back or at the front of the queue; \<^verbatim>\<open>Dequeue\<close> leaves the store
  as it is and hands out the pointer at the front. So the frame that was enqueued comes
  back, after the frames that were waiting before it, as the same object with the same
  headers and body, and a requeued frame comes back at the next dequeue. The same holds
  for the frame objects after any sequence of data operations.
\<close>

theorem frames_never_written:
  assumes "lists_map (storage w) = Some ls"
  shows "(\<exists>w1 w2. Enqueue w d f = Inr (None, w1) \<and> frames w1 = frames w
            \<and> queue_of w1 d = queue_of w d @ [f]
            \<and> run w1 (replicate (length (queue_of w d) + 1) (OpDequeue d))
                = Inr (map (\<lambda>p. Delivered p None) (queue_of w d @ [f]), w2)
            \<and> frames w2 = frames w)
       \<and> (\<exists>w1 w2. Requeue w d f = Inr (None, w1) \<and> frames w1 = frames w
            \<and> queue_of w1 d = f # queue_of w d
            \<and> Dequeue w1 d = Inr ((f, None), w2) \<and> frames w2 = frames w)
       \<and> (\<exists>w1. Dequeue w d = Inr ((head_or_nil (queue_of w d), None), w1)
            \<and> frames w1 = frames w \<and> queue_of w1 d = tl (queue_of w d))
       \<and> (\<exists>rs w1. run w xs = Inr (rs, w1) \<and> frames w1 = frames w)"
proof -
  have a: "\<exists>w1 w2. Enqueue w d f = Inr (None, w1) \<and> frames w1 = frames w
            \<and> queue_of w1 d = queue_of w d @ [f]
            \<and> run w1 (replicate (length (queue_of w d) + 1) (OpDequeue d))
                = Inr (map (\<lambda>p. Delivered p None) (queue_of w d @ [f]), w2)
            \<and> frames w2 = frames w"
  proof -
    from Enqueue_started [OF assms, of d f] obtain w1 where
      e: "Enqueue w d f = Inr (None, w1)" and f1: "frames w1 = frames w"
      and l1: "lists_map (storage w1) = Some (ls(d \<mapsto> queue_of w d @ [f]))" by blast
    have q1: "queue_of w1 d = queue_of w d @ [f]" using l1 by (simp add: queue_of_def)
    from drain [OF l1, of d] obtain w2 where
      "run w1 (replicate (length (queue_of w1 d)) (OpDequeue d))
         = Inr (map (\<lambda>p. Delivered p None) (queue_of w1 d), w2)"
      and "frames w2 = frames w1" by blast
    with e f1 q1 show ?thesis by simp
  qed
  have b: "\<exists>w1 w2. Requeue w d f = Inr (None, w1) \<and> frames w1 = frames w
            \<and> queue_of w1 d = f # queue_of w d
            \<and> Dequeue w1 d = Inr ((f, None), w2) \<and> frames w2 = frames w"
  proof -
    from Requeue_started [OF assms, of d f] obtain w1 where
      e: "Requeue w d f = Inr (None, w1)" and f1: "frames w1 = frames w"
      and l1: "lists_map (storage w1) = Some (ls(d \<mapsto> f # queue_of w d))" by blast
    have q1: "queue_of w1 d = f # queue_of w d" using l1 by (simp add: queue_of_def)
    from Dequeue_nonempty [OF l1 q1] obtain w2 where
      "Dequeue w1 d = Inr ((f, None), w2)" and "frames w2 = frames w1" by blast
    with e f1 q1 show ?thesis by simp
  qed
  have c: "\<exists>w1. Dequeue w d = Inr ((head_or_nil (queue_of w d), None), w1)
            \<and> frames w1 = frames w \<and> queue_of w1 d = tl (queue_of w d)"
  proof -
    from exec_started [OF assms, of "OpDequeue d"] obtain w1 where
      e: "exec w (OpDequeue d) = Inr (answer (queue_of w) (OpDequeue d), w1)"
      and f1: "frames w1 = frames w"
      and q: "\<forall>q. queue_of w1 q = queue_step q (queue_of w q) (OpDequeue d)" by blast
    from e have "Dequeue w d = Inr ((head_or_nil (queue_of w d), None), w1)"
      by (auto split: sum.splits)
    with f1 q show ?thesis by simp
  qed
  have e: "\<exists>rs w1. run w xs = Inr (rs, w1) \<and> frames w1 = frames w"
    using run_started [OF assms, of xs] by blast
  from a b c e show ?thesis by blast
qed

theorem frames_never_written_witness:
  "lists_map (storage (Start (unstarted plain_frames))) = Some Map.empty
   \<and> (\<exists>w1 w2. Enqueue (Start (unstarted plain_frames)) ''orders'' (FramePtr 0) = Inr (None, w1)
         \<and> frames w1 = plain_frames \<and> queue_of w1 ''orders'' = [FramePtr 0]
         \<and> run w1 (replicate 1 (OpDequeue ''orders'')) = Inr ([Delivered (FramePtr 0) None], w2)
         \<and> frames w2 = plain_frames)
   \<and> (\<exists>w1 w2. Requeue (Start (unstarted plain_frames)) ''orders'' (FramePtr 0) = Inr (None, w1)
         \<and> frames w1 = plain_frames \<and> queue_of w1 ''orders'' = [FramePtr 0]
         \<and> Dequeue w1 ''orders'' = Inr ((FramePtr 0, None), w2) \<and> frames w2 = plain_frames)
   \<and> (\<exists>w1. Dequeue (Start (unstarted plain_frames)) ''orders'' = Inr ((NilFrame, None), w1)
         \<and> frames w1 = plain_frames \<and> queue_of w1 ''orders'' = [])
   \<and> (\<exists>rs w1. run (Start (unstarted plain_frames))
                  [OpEnqueue ''orders'' (FramePtr 1), OpDequeue ''orders''] = Inr (rs, w1)
         \<and> frames w1 = plain_frames)"
proof -
  have h: "lists_map (storage (Start (unstarted plain_frames))) = Some Map.empty"
    by (simp add: Start_def)
  have f: "frames (Start (unstarted plain_frames)) = plain_frames"
    by (simp add: Start_def unstarted_def)
  have n: "length (queue_of (Start (unstarted plain_frames)) ''orders'') + 1 = 1"
    by (simp add: queue_of_Start)
  from frames_never_written [OF h, of "''orders''" "FramePtr 0"
      "[OpEnqueue ''orders'' (FramePtr 1), OpDequeue ''orders'']"]
  show ?thesis unfolding n f using h
    by (simp add: queue_of_Start head_or_nil_def del: run.simps replicate.simps)
qed

end
